theory Spec2Isabelle
  imports Main
begin

section \<open>Data model (main.go, lines 25-61)\<close>

text \<open>
  The \<open>story\<close> struct of main.go: the nine fields decoded from the upstream JSON and
  the two fields filled in for the template. Go's \<open>int\<close> fields are never used in
  arithmetic here, so they are plain integers.
\<close>

record story =
  By :: string
  Descendants :: int
  ID :: int
  Kids :: "int list"
  Score :: int
  Time :: int
  Title :: string
  Type :: string
  URL :: string
  DomainName :: string
  HumanTime :: string

text \<open>
  What \<open>http.Get\<close> hands back, as far as the program looks at it: the outcome of
  \<open>ioutil.ReadAll(res.Body)\<close>, that is the bytes read and the error, if any. The
  status code is never inspected by main.go.
\<close>

record response =
  resp_body :: string
  resp_err :: "string option"

text \<open>
  The outside world and the library calls whose results the program branches on. They are
  parameters of the model:
  \<^item> \<open>http_Get url\<close>: \<open>None\<close> when \<open>http.Get\<close> returns an error;
  \<^item> \<open>json_keys body\<close>: the error of \<open>json.Unmarshal(body, &keys)\<close> and the contents
    of \<open>keys\<close> afterwards;
  \<^item> \<open>json_story body\<close>: \<open>json.Unmarshal(body, s)\<close> on a fresh \<open>&story{}\<close>,
    \<open>None\<close> when it returns an error;
  \<^item> \<open>humanize_Time t\<close>: \<open>humanize.Time(time.Unix(t, 0))\<close> at the moment of the call;
  \<^item> \<open>url_Hostname u\<close>: \<open>url.Parse(u)\<close> followed by \<open>Hostname()\<close>, \<open>None\<close> when
    the parse fails;
  \<^item> \<open>template_ok\<close>: whether \<open>template.ParseFiles("index.tmpl")\<close> succeeds.
\<close>

record env =
  http_Get :: "string \<Rightarrow> response option"
  json_keys :: "string \<Rightarrow> string option \<times> int list"
  json_story :: "string \<Rightarrow> story option"
  humanize_Time :: "int \<Rightarrow> string"
  url_Hostname :: "string \<Rightarrow> string option"
  template_ok :: bool

definition baseURL :: string where
  "baseURL = ''https://hacker-news.firebaseio.com/v0/''"

section \<open>Library functions used on strings\<close>

text \<open>\<open>strings.HasPrefix\<close> and \<open>strings.Contains\<close> on byte strings.\<close>

fun HasPrefix :: "string \<Rightarrow> string \<Rightarrow> bool" where
  "HasPrefix s [] = True"
| "HasPrefix [] (p # ps) = False"
| "HasPrefix (c # cs) (p # ps) = (c = p \<and> HasPrefix cs ps)"

fun Contains :: "string \<Rightarrow> string \<Rightarrow> bool" where
  "Contains [] sub = HasPrefix [] sub"
| "Contains (c # cs) sub = (HasPrefix (c # cs) sub \<or> Contains cs sub)"

text \<open>The verb \<open>%d\<close> of \<open>fmt.Sprintf\<close>: decimal digits, with a minus sign below zero.\<close>

fun digits :: "nat \<Rightarrow> string" where
  "digits n = (if n < 10 then [''0123456789'' ! n]
               else digits (n div 10) @ [''0123456789'' ! (n mod 10)])"

definition fmt_d :: "int \<Rightarrow> string" where
  "fmt_d i = (if i < 0 then CHR ''-'' # digits (nat (- i)) else digits (nat i))"

section \<open>Eligibility and enrichment (main.go, lines 134-142)\<close>

text \<open>The condition of line 135.\<close>

definition eligible :: "string \<Rightarrow> bool" where
  "eligible u = (Contains u ''github'' \<or> Contains u ''gitlab'')"

text \<open>
  Lines 135-141 up to the append: \<open>None\<close> when the story is not kept, otherwise the
  story as it is appended. \<open>HumanTime\<close> is always set; \<open>DomainName\<close> only when the
  URL parses.
\<close>

definition enrich :: "env \<Rightarrow> story \<Rightarrow> story option" where
  "enrich e s =
     (if eligible (URL s) then
        (let s1 = s\<lparr>HumanTime := humanize_Time e (Time s)\<rparr> in
         case url_Hostname e (URL s) of
           None \<Rightarrow> Some s1
         | Some h \<Rightarrow> Some (s1\<lparr>DomainName := h\<rparr>))
      else None)"

text \<open>Line 116: \<open>fmt.Sprintf(baseURL+"v0/item/%d.json", storyKey)\<close>.\<close>

definition item_url :: "int \<Rightarrow> string" where
  "item_url storyKey = baseURL @ ''v0/item/'' @ fmt_d storyKey @ ''.json''"

section \<open>getStories as an interleaving of the orchestrator and its goroutines\<close>

text \<open>
  \<open>getStories\<close> starts one goroutine per key and shares four things with them: the
  slice \<open>stories\<close>, the variable \<open>body\<close> (the goroutines assign to the outer
  \<open>body\<close> in line 123, they do not declare their own), the wait group \<open>wg\<close> and the
  buffered channel \<open>semaphore\<close> of capacity 10. The model is a state machine in which
  a scheduler picks, at each step, the thread that executes its next statement. An
  operation on the wait group or on the channel is one step. A slice is the list of its
  elements; the append of line 141 is two steps, the read of the slice and the store of
  the extended slice, since nothing in the code makes it one. The channel is the number
  of values it holds, the wait group its counter together with the state of the one
  goroutine that ever waits on it, the orchestrator.

  Control points of the orchestrating thread:
  \<^item> \<open>MLoop ks\<close>: at the head of the \<open>range\<close> loop (line 86), \<open>ks\<close> still to visit;
  \<^item> \<open>MSleep k ks\<close>: past the test of line 89, before the sleep and the \<open>go\<close>
    statement for key \<open>k\<close>;
  \<^item> \<open>MWait\<close>: at \<open>wg.Wait()\<close> (line 148), before it looks at the counter;
  \<^item> \<open>MBlocked\<close>: inside \<open>wg.Wait()\<close>, registered as waiter and asleep;
  \<^item> \<open>MWoken\<close>: inside \<open>wg.Wait()\<close>, released by the \<open>wg.Done()\<close> that brought
    the counter to zero, before the test that \<open>Wait\<close> makes on waking;
  \<^item> \<open>MPanic\<close>: \<open>wg.Wait()\<close> has panicked, \<open>getStories\<close> does not return;
  \<^item> \<open>MReturn\<close>: at \<open>return stories, nil\<close> (line 150);
  \<^item> \<open>MDone ss\<close>: returned \<open>ss\<close>.
\<close>

datatype mpc =
    MLoop "int list" | MSleep int "int list" | MWait | MBlocked | MWoken | MPanic | MReturn
  | MDone "story list"

text \<open>
  Control points of a goroutine (lines 97-144):
  \<^item> \<open>TStart k\<close>: started, before \<open>wg.Add(1)\<close>;
  \<^item> \<open>TAcquire k\<close>: before the send on \<open>semaphore\<close>, which blocks while 10 are held;
  \<^item> \<open>TGet k\<close>: before \<open>http.Get\<close>;
  \<^item> \<open>TRead r\<close>: before \<open>body, err = ioutil.ReadAll(res.Body)\<close>;
  \<^item> \<open>TDecode\<close>: before \<open>json.Unmarshal(body, s)\<close>;
  \<^item> \<open>TFilter s\<close>: before the test of line 135;
  \<^item> \<open>TAppend old s\<close>: inside \<open>stories = append(stories, s)\<close>, after reading the
    slice \<open>old\<close> and before storing the extended slice back;
  \<^item> \<open>TDefer\<close>: in the deferred function, before \<open>wg.Done()\<close>;
  \<^item> \<open>TRelease\<close>: before the receive from \<open>semaphore\<close>;
  \<^item> \<open>TExit\<close>: finished.
\<close>

datatype tpc =
    TStart int | TAcquire int | TGet int | TRead response | TDecode | TFilter story
  | TAppend "story list" story | TDefer | TRelease | TExit

record state =
  mpc :: mpc
  tasks :: "tpc list"
  stories :: "story list"
  body :: string
  wg :: int
  semaphore :: nat

datatype tid = Main | Task nat

text \<open>
  One statement of the orchestrator; \<open>None\<close> means the thread cannot take a step
  (asleep, panicked or finished). \<open>wg.Wait()\<close> is \<open>sync.WaitGroup.Wait\<close>: it returns
  at once when the counter is zero; otherwise it registers as waiter and sleeps until a
  \<open>Done\<close> brings the counter to zero, and on waking it panics ("WaitGroup is reused
  before previous Wait has returned") unless the counter is still zero. The counter can
  have left zero by then, since the \<open>wg.Add(1)\<close> of line 100 is executed by the
  goroutines.
\<close>

fun main_step :: "mpc \<Rightarrow> state \<Rightarrow> state option" where
  "main_step (MLoop []) st = Some (st\<lparr>mpc := MWait\<rparr>)"
| "main_step (MLoop (k # ks)) st =
     (if length (stories st) \<ge> 30 then Some (st\<lparr>mpc := MWait\<rparr>)
      else Some (st\<lparr>mpc := MSleep k ks\<rparr>))"
| "main_step (MSleep k ks) st = Some (st\<lparr>mpc := MLoop ks, tasks := tasks st @ [TStart k]\<rparr>)"
| "main_step MWait st =
     (if wg st = 0 then Some (st\<lparr>mpc := MReturn\<rparr>) else Some (st\<lparr>mpc := MBlocked\<rparr>))"
| "main_step MBlocked st = None"
| "main_step MWoken st =
     (if wg st = 0 then Some (st\<lparr>mpc := MReturn\<rparr>) else Some (st\<lparr>mpc := MPanic\<rparr>))"
| "main_step MPanic st = None"
| "main_step MReturn st = Some (st\<lparr>mpc := MDone (stories st)\<rparr>)"
| "main_step (MDone ss) st = None"

text \<open>
  \<open>wg.Done()\<close>: the counter goes down by one, and the waiter, if there is one, is
  released when it reaches zero. Decrement and release are one step.
\<close>

definition wg_Done :: "state \<Rightarrow> state" where
  "wg_Done st =
     st\<lparr>wg := wg st - 1,
        mpc := (if wg st - 1 = 0 \<and> mpc st = MBlocked then MWoken else mpc st)\<rparr>"

text \<open>
  One statement of a goroutine: its next control point and the shared state after the
  statement. Every \<open>return\<close> of lines 118-132 leads to the deferred function.
  \<open>ioutil.ReadAll\<close> assigns the shared \<open>body\<close> also when it fails. A goroutine
  calls \<open>wg.Done()\<close> only after its own \<open>wg.Add(1)\<close> and receives from the channel
  only after its own send, so the counter does not go below zero and the receive finds
  a value; and while the orchestrator sleeps in \<open>Wait\<close> the counter is not zero, so
  no \<open>wg.Add(1)\<close> meets a waiter at counter zero (lemma \<open>accounted_exec\<close> below).
\<close>

fun task_step :: "env \<Rightarrow> tpc \<Rightarrow> state \<Rightarrow> (tpc \<times> state) option" where
  "task_step e (TStart k) st = Some (TAcquire k, st\<lparr>wg := wg st + 1\<rparr>)"
| "task_step e (TAcquire k) st =
     (if semaphore st < 10 then Some (TGet k, st\<lparr>semaphore := semaphore st + 1\<rparr>) else None)"
| "task_step e (TGet k) st =
     (case http_Get e (item_url k) of
        None \<Rightarrow> Some (TDefer, st)
      | Some r \<Rightarrow> Some (TRead r, st))"
| "task_step e (TRead r) st =
     (case resp_err r of
        Some err \<Rightarrow> Some (TDefer, st\<lparr>body := resp_body r\<rparr>)
      | None \<Rightarrow> Some (TDecode, st\<lparr>body := resp_body r\<rparr>))"
| "task_step e TDecode st =
     (case json_story e (body st) of
        None \<Rightarrow> Some (TDefer, st)
      | Some s \<Rightarrow> Some (TFilter s, st))"
| "task_step e (TFilter s) st =
     (case enrich e s of
        None \<Rightarrow> Some (TDefer, st)
      | Some s' \<Rightarrow> Some (TAppend (stories st) s', st))"
| "task_step e (TAppend old s) st = Some (TDefer, st\<lparr>stories := old @ [s]\<rparr>)"
| "task_step e TDefer st = Some (TRelease, wg_Done st)"
| "task_step e TRelease st =
     (if semaphore st = 0 then None else Some (TExit, st\<lparr>semaphore := semaphore st - 1\<rparr>))"
| "task_step e TExit st = None"

fun step :: "env \<Rightarrow> tid \<Rightarrow> state \<Rightarrow> state option" where
  "step e Main st = main_step (mpc st) st"
| "step e (Task i) st =
     (if i < length (tasks st) then
        (case task_step e (tasks st ! i) st of
           None \<Rightarrow> None
         | Some (pc, st') \<Rightarrow> Some (st'\<lparr>tasks := (tasks st')[i := pc]\<rparr>))
      else None)"

text \<open>
  Running a schedule: the scheduler names a thread; a thread that cannot step leaves the
  state as it is.
\<close>

fun exec :: "env \<Rightarrow> tid list \<Rightarrow> state \<Rightarrow> state" where
  "exec e [] st = st"
| "exec e (t # ts) st = exec e ts (case step e t st of None \<Rightarrow> st | Some st' \<Rightarrow> st')"

text \<open>The state after lines 67-83, for the body read and the keys decoded from it.\<close>

definition init_state :: "string \<Rightarrow> int list \<Rightarrow> state" where
  "init_state b ks =
     \<lparr>mpc = MLoop ks, tasks = [], stories = [], body = b, wg = 0, semaphore = 0\<rparr>"

text \<open>
  \<open>getStories\<close> (lines 64-151) under a schedule. A failed \<open>ReadAll\<close> returns its error
  at once; the error of \<open>json.Unmarshal(body, &keys)\<close> is not looked at. The result is
  \<open>None\<close> when the orchestrator has not returned by the end of the schedule, which
  includes the runs in which \<open>wg.Wait()\<close> panics.
\<close>

definition getStories :: "env \<Rightarrow> tid list \<Rightarrow> response \<Rightarrow> (string + story list) option" where
  "getStories e sched res =
     (case resp_err res of
        Some err \<Rightarrow> Some (Inl err)
      | None \<Rightarrow>
          (case mpc (exec e sched (init_state (resp_body res) (snd (json_keys e (resp_body res))))) of
             MDone ss \<Rightarrow> Some (Inr ss)
           | _ \<Rightarrow> None))"

section \<open>Pages and the cache (main.go, lines 153-243)\<close>

definition list_url :: "string \<Rightarrow> string" where
  "list_url pageType =
     (if pageType = ''best'' then baseURL @ ''beststories.json''
      else if pageType = ''new'' then baseURL @ ''newstories.json''
      else if pageType = ''show'' then baseURL @ ''showstories.json''
      else baseURL @ ''topstories.json'')"

definition getStoriesFromType :: "env \<Rightarrow> tid list \<Rightarrow> string \<Rightarrow> (string + story list) option" where
  "getStoriesFromType e sched pageType =
     (case http_Get e (list_url pageType) of
        None \<Rightarrow> Some (Inl (''could not get '' @ pageType @ '' hacker news posts list''))
      | Some res \<Rightarrow>
          (case getStories e sched res of
             None \<Rightarrow> None
           | Some (Inl err) \<Rightarrow> Some (Inl (''could not get '' @ pageType @ '' hacker news posts data''))
           | Some (Inr s) \<Rightarrow> Some (Inr s)))"

text \<open>
  The cache is the go-cache package, which is not part of the sources; section 4.6 of the
  specification gives its contract. An entry holds a value and the instant at which it
  expires. Instants are nanoseconds.
\<close>

type_synonym cache = "string \<rightharpoonup> (story list \<times> nat)"

text \<open>The default time to live, the first argument of \<open>cache.New\<close> in line 38.\<close>

definition DefaultExpiration :: nat where
  "DefaultExpiration = 30 * (60 * 1000000000)"

text \<open>
  Modelled from the spec: \<open>Set\<close> of go-cache, called with \<open>cache.DefaultExpiration\<close>
  in line 220. It replaces the entry of the key and lets it expire the time to live after
  the moment of the call.
\<close>

definition cache_Set :: "cache \<Rightarrow> string \<Rightarrow> story list \<Rightarrow> nat \<Rightarrow> cache" where
  "cache_Set c k v now = c(k \<mapsto> (v, now + DefaultExpiration))"

text \<open>
  Modelled from the spec: \<open>Get\<close> of go-cache. An entry past its expiry is a miss,
  whether or not the sweep has removed it.
\<close>

definition cache_Get :: "cache \<Rightarrow> string \<Rightarrow> nat \<Rightarrow> story list option" where
  "cache_Get c k now =
     (case c k of
        None \<Rightarrow> None
      | Some (v, expiration) \<Rightarrow> if now > expiration then None else Some v)"

text \<open>
  What the handler writes: a status and either an error text or the container given to
  the template.
\<close>

datatype page = Failure nat string | Rendered nat string "story list"

definition render :: "env \<Rightarrow> string \<Rightarrow> story list \<Rightarrow> page" where
  "render e pageType s =
     (if template_ok e then Rendered 200 pageType s
      else Failure 500 ''could not parse template file'')"

text \<open>
  The handler of lines 188-243, called at instant \<open>t_get\<close>; \<open>t_set\<close> is the instant
  at which a freshly aggregated result is stored. It returns the cache afterwards and the
  page written.
\<close>

definition pageHandler ::
  "env \<Rightarrow> tid list \<Rightarrow> nat \<Rightarrow> nat \<Rightarrow> string \<Rightarrow> cache \<Rightarrow> (cache \<times> page) option" where
  "pageHandler e sched t_get t_set pageType cash =
     (case cache_Get cash pageType t_get of
        Some s \<Rightarrow> Some (cash, render e pageType s)
      | None \<Rightarrow>
          (case getStoriesFromType e sched pageType of
             None \<Rightarrow> None
           | Some (Inl err) \<Rightarrow> Some (cash, Failure 500 err)
           | Some (Inr s) \<Rightarrow> Some (cache_Set cash pageType s t_set, render e pageType s)))"

section \<open>Bookkeeping of the goroutines\<close>

text \<open>
  \<open>fetching\<close>: the control points of the fetch-and-filter work (lines 116-142).
  \<open>holds_slot\<close>: between the send on \<open>semaphore\<close> and the receive that gives the
  slot back. \<open>counted\<close>: between \<open>wg.Add(1)\<close> and \<open>wg.Done()\<close>.
\<close>

fun fetching :: "tpc \<Rightarrow> bool" where
  "fetching (TGet k) = True"
| "fetching (TRead r) = True"
| "fetching TDecode = True"
| "fetching (TFilter s) = True"
| "fetching (TAppend old s) = True"
| "fetching pc = False"

fun holds_slot :: "tpc \<Rightarrow> bool" where
  "holds_slot TDefer = True"
| "holds_slot TRelease = True"
| "holds_slot pc = fetching pc"

fun counted :: "tpc \<Rightarrow> bool" where
  "counted (TStart k) = False"
| "counted TRelease = False"
| "counted TExit = False"
| "counted pc = True"

text \<open>
  The channel and the wait group agree with the control points of the goroutines, and
  the orchestrator sleeps in \<open>Wait\<close> only while the counter is not zero.
\<close>

definition accounted :: "state \<Rightarrow> bool" where
  "accounted st \<longleftrightarrow>
     semaphore st = length (filter holds_slot (tasks st)) \<and> semaphore st \<le> 10
     \<and> wg st = int (length (filter counted (tasks st)))
     \<and> (mpc st = MBlocked \<longrightarrow> wg st \<noteq> 0)"





text \<open>What a goroutine appends for a key when nothing interferes with it.\<close>

definition item_result :: "env \<Rightarrow> int \<Rightarrow> story option" where
  "item_result e k =
     (case http_Get e (item_url k) of
        None \<Rightarrow> None
      | Some r \<Rightarrow>
          (case resp_err r of
             Some err \<Rightarrow> None
           | None \<Rightarrow>
               (case json_story e (resp_body r) of
                  None \<Rightarrow> None
                | Some s \<Rightarrow> enrich e s)))"

section \<open>Schedules and upstream behaviours used as concrete inputs\<close>

text \<open>
  The schedule in which the orchestrator starts a goroutine for each of \<open>n\<close> keys
  before any of them runs, the goroutines then run one after the other, and the
  orchestrator finishes.
\<close>

definition admit_all_first :: "nat \<Rightarrow> tid list" where
  "admit_all_first n =
     concat (replicate n [Main, Main])
     @ concat (map (\<lambda>i. replicate 9 (Task i)) [0..<n])
     @ [Main, Main, Main]"

text \<open>
  The schedule for two keys in which both goroutines read the slice \<open>stories\<close> before
  either stores its extended slice, and the orchestrator waits for both.
\<close>

definition both_read_first :: "tid list" where
  "both_read_first = replicate 4 Main @ replicate 6 (Task 0) @ replicate 6 (Task 1)"

definition lost_update :: "tid list" where
  "lost_update =
     both_read_first @ replicate 3 (Task 0) @ replicate 3 (Task 1) @ replicate 3 Main"

text \<open>The schedule in which the orchestrator runs alone.\<close>

definition main_only :: "tid list" where
  "main_only = replicate 6 Main"

text \<open>
  An upstream whose list decodes to \<open>ks\<close> and whose every item is a story linking to
  github: a response carries the requested URL as its body, and the decoder records the
  body as the title.
\<close>

definition decoded :: "string \<Rightarrow> story" where
  "decoded b =
     \<lparr>By = ''pg'', Descendants = 0, ID = 0, Kids = [], Score = 1, Time = 0, Title = b,
      Type = ''story'', URL = ''https://github.com/a/b'', DomainName = [], HumanTime = []\<rparr>"

definition listed :: "string \<Rightarrow> story" where
  "listed b = (decoded b)\<lparr>HumanTime := ''now'', DomainName := ''github.com''\<rparr>"

definition all_github :: "int list \<Rightarrow> env" where
  "all_github ks =
     \<lparr>http_Get = (\<lambda>u. Some \<lparr>resp_body = u, resp_err = None\<rparr>),
      json_keys = (\<lambda>b. (None, ks)),
      json_story = (\<lambda>b. Some (decoded b)),
      humanize_Time = (\<lambda>t. ''now''),
      url_Hostname = (\<lambda>u. Some ''github.com''),
      template_ok = True\<rparr>"

definition list_response :: response where
  "list_response = \<lparr>resp_body = ''[...]'', resp_err = None\<rparr>"

definition keys31 :: "int list" where
  "keys31 = map int [1..<32]"

text \<open>
  An upstream that answers the list request with a page that is not JSON: the decoding
  fails and leaves \<open>keys\<close> empty.
\<close>

definition bad_gateway :: env where
  "bad_gateway =
     (all_github [])
       \<lparr>http_Get := (\<lambda>u. Some \<lparr>resp_body = ''<html>502 Bad Gateway</html>'', resp_err = None\<rparr>),
        json_keys := (\<lambda>b. (Some ''invalid character'', []))\<rparr>"


text \<open>
  An upstream with a story whose link has an invalid escape, which \<open>url.Parse\<close>
  rejects.
\<close>

definition bad_escape :: story where
  "bad_escape = (decoded ''{}'')\<lparr>URL := ''http://github.com/%zz''\<rparr>"

definition unparsable :: env where
  "unparsable =
     (all_github [1])
       \<lparr>url_Hostname := (\<lambda>u. if u = ''http://github.com/%zz'' then None
                             else Some ''github.com'')\<rparr>"


definition at_filter :: state where
  "at_filter =
     \<lparr>mpc = MLoop [], tasks = [TExit, TFilter bad_escape],
      stories = [listed ''first''], body = ''{}'', wg = 1, semaphore = 1\<rparr>"


text \<open>
  The schedule in which every goroutine runs to its end before the orchestrator goes on,
  and what the loop of lines 86-145 collects then: key after key, until 30 stories are
  in, the story of every key whose fetch, decoding and test succeed.
\<close>

definition sequential :: "nat \<Rightarrow> tid list" where
  "sequential n =
     concat (map (\<lambda>i. [Main, Main] @ replicate 9 (Task i)) [0..<n]) @ [Main, Main, Main]"

fun sequential_result :: "env \<Rightarrow> int list \<Rightarrow> story list \<Rightarrow> story list" where
  "sequential_result e [] acc = acc"
| "sequential_result e (k # ks) acc =
     (if length acc \<ge> 30 then acc
      else sequential_result e ks (case item_result e k of None \<Rightarrow> acc | Some s \<Rightarrow> acc @ [s]))"

text \<open>
  The schedule for two keys in which the orchestrator goes to sleep in \<open>wg.Wait()\<close>
  while only the first goroutine is counted, that goroutine finishes and wakes it, and
  the second goroutine calls \<open>wg.Add(1)\<close> before the orchestrator runs again.
\<close>

definition late_add :: "tid list" where
  "late_add = replicate 4 Main @ [Task 0, Main, Main] @ replicate 8 (Task 0) @ [Task 1, Main]"


text \<open>
  An upstream whose item body has a member \<open>DomainName\<close>, which the decoder stores in
  the field of that name (the field has no \<open>json\<close> tag), and a link that does not
  parse.
\<close>

definition with_host :: story where
  "with_host = bad_escape\<lparr>DomainName := ''evil.example''\<rparr>"

definition carries_host :: env where
  "carries_host = unparsable\<lparr>json_story := (\<lambda>b. Some with_host)\<rparr>"

section \<open>The eligibility test is a substring test\<close>

lemma HasPrefix_iff: "HasPrefix s p \<longleftrightarrow> (\<exists>q. s = p @ q)"
  by (induction s p rule: HasPrefix.induct) auto

lemma Contains_iff: "Contains s sub \<longleftrightarrow> (\<exists>p q. s = p @ sub @ q)"
proof (induction s)
  case Nil
  show ?case by (cases sub) auto
next
  case (Cons c cs)
  show ?case
  proof
    assume "Contains (c # cs) sub"
    then consider "HasPrefix (c # cs) sub" | "Contains cs sub" by auto
    then show "\<exists>p q. c # cs = p @ sub @ q"
    proof cases
      case 1
      then obtain q where "c # cs = sub @ q" by (auto simp: HasPrefix_iff)
      then have "c # cs = [] @ sub @ q" by simp
      then show ?thesis by blast
    next
      case 2
      then obtain p q where "cs = p @ sub @ q" using Cons.IH by blast
      then have "c # cs = (c # p) @ sub @ q" by simp
      then show ?thesis by blast
    qed
  next
    assume "\<exists>p q. c # cs = p @ sub @ q"
    then obtain p q where pq: "c # cs = p @ sub @ q" by blast
    show "Contains (c # cs) sub"
    proof (cases p)
      case Nil
      with pq have "HasPrefix (c # cs) sub" by (auto simp: HasPrefix_iff)
      then show ?thesis by simp
    next
      case (Cons a p')
      with pq have "cs = p' @ sub @ q" by simp
      then have "Contains cs sub" using Cons.IH by blast
      then show ?thesis by simp
    qed
  qed
qed

text \<open>
  C4. An item is eligible exactly when its link URL has "github" or "gitlab" as a
  substring; "https://github.com/x/y" and "https://notgithub.example" are eligible,
  "https://example.com" is not.
\<close>

theorem eligible_substring:
  "(eligible u \<longleftrightarrow> (\<exists>p q. u = p @ ''github'' @ q) \<or> (\<exists>p q. u = p @ ''gitlab'' @ q))
   \<and> eligible ''https://github.com/x/y''
   \<and> \<not> eligible ''https://example.com''
   \<and> eligible ''https://notgithub.example''"
proof -
  have "eligible u \<longleftrightarrow> (\<exists>p q. u = p @ ''github'' @ q) \<or> (\<exists>p q. u = p @ ''gitlab'' @ q)"
    unfolding eligible_def Contains_iff ..
  moreover have "eligible ''https://github.com/x/y''"
    by (simp add: eligible_def)
  moreover have "\<not> eligible ''https://example.com''"
    by (simp add: eligible_def)
  moreover have "eligible ''https://notgithub.example''"
    by (simp add: eligible_def)
  ultimately show ?thesis by blast
qed

section \<open>The item endpoint\<close>

text \<open>
  C9. The item fetch is to go to the item-detail endpoint under the API base URL, that is
  to \<open>baseURL\<close> followed by \<open>item/<id>.json\<close>, as the list requests go to
  \<open>baseURL\<close> followed by the list's file name. Line 116 puts a second \<open>v0/\<close>
  after the base URL, which already ends in \<open>v0/\<close>: for identifier 8863 the request
  goes to \<open>.../v0/v0/item/8863.json\<close>.
\<close>

theorem item_url_repeats_version:
  "item_url 8863 = ''https://hacker-news.firebaseio.com/v0/v0/item/8863.json''
   \<and> item_url 8863 \<noteq> baseURL @ ''item/8863.json''
   \<and> list_url ''new'' = baseURL @ ''newstories.json''"
  by (simp add: item_url_def baseURL_def fmt_d_def list_url_def)

section \<open>The cache\<close>

text \<open>
  C7. A \<open>Set\<close> followed at once by a \<open>Get\<close> of the same key finds the value
  stored; a \<open>Get\<close> more than the time to live (30 minutes) after the \<open>Set\<close> finds
  nothing, and one within the time to live finds the value.
\<close>

theorem cache_set_get:
  "cache_Get (cache_Set c k v t) k t = Some v
   \<and> cache_Get (cache_Set c k v t) k t' = (if t' > t + DefaultExpiration then None else Some v)
   \<and> DefaultExpiration = 30 * 60 * 10 ^ 9"
  by (simp add: cache_Get_def cache_Set_def DefaultExpiration_def)

section \<open>Concrete schedules, written out\<close>

lemma main_only: "main_only = [Main, Main, Main, Main, Main, Main]"
  by (simp add: main_only_def numeral_eq_Suc)

lemma both_read_first:
  "both_read_first =
     [Main, Main, Main, Main, Task 0, Task 0, Task 0, Task 0, Task 0, Task 0,
      Task 1, Task 1, Task 1, Task 1, Task 1, Task 1]"
  by (simp add: both_read_first_def numeral_eq_Suc)

lemma lost_update:
  "lost_update =
     both_read_first @ [Task 0, Task 0, Task 0, Task 1, Task 1, Task 1, Main, Main, Main]"
  by (simp add: lost_update_def numeral_eq_Suc)

section \<open>A list body that does not decode\<close>

text \<open>
  C3. When the identifier-list fetch fails, the caller is to get an error and nothing is
  to be written to the cache. That is so when the request or the read of the body fails.
  When the body does not decode, the code goes on with no keys (line 74 drops the error
  of \<open>json.Unmarshal\<close>): for an upstream answering with an HTML error page, the handler
  renders an empty page with status 200 and stores the empty sequence in the cache, where
  a later \<open>Get\<close> finds it.
\<close>

theorem undecodable_list_is_cached:
  "fst (json_keys bad_gateway ''<html>502 Bad Gateway</html>'') \<noteq> None
   \<and> pageHandler bad_gateway main_only 0 0 ''top'' Map.empty
       = Some (cache_Set Map.empty ''top'' [] 0, Rendered 200 ''top'' [])
   \<and> cache_Get (cache_Set Map.empty ''top'' [] 0) ''top'' 1 = Some []"
  by (simp add: pageHandler_def getStoriesFromType_def getStories_def bad_gateway_def
      all_github_def main_only init_state_def cache_Get_def cache_Set_def
      DefaultExpiration_def render_def list_url_def baseURL_def)

text \<open>The two failures that do reach the caller, under every schedule.\<close>

lemma list_request_failure_reaches_caller:
  assumes "cache_Get cash pageType t_get = None"
    and "http_Get e (list_url pageType) = None
         \<or> (\<exists>res err. http_Get e (list_url pageType) = Some res \<and> resp_err res = Some err)"
  shows "\<exists>msg. pageHandler e sched t_get t_set pageType cash = Some (cash, Failure 500 msg)"
  using assms by (auto simp: pageHandler_def getStoriesFromType_def getStories_def)

section \<open>Returning before the goroutines have been counted\<close>

text \<open>
  C5. With fewer than 30 eligible items the aggregator is to return every eligible item.
  The goroutine calls \<open>wg.Add(1)\<close> itself (line 100), so \<open>wg.Wait()\<close> does not wait
  for a goroutine that has not run yet: with one key, whose item is eligible, and the
  orchestrator running first, \<open>getStories\<close> returns the empty sequence.
\<close>

theorem returns_before_goroutine_counted:
  "item_result (all_github [1]) 1 = Some (listed (item_url 1))
   \<and> getStories (all_github [1]) main_only list_response = Some (Inr [])"
  by (simp add: getStories_def all_github_def main_only init_state_def list_response_def
      item_result_def enrich_def eligible_def listed_def decoded_def)

section \<open>Two goroutines appending at once\<close>

text \<open>
  C2. Concurrent appends to the shared result collection are never to lose an item. The
  append of line 141 reads the slice and stores the extended slice with nothing to keep
  another goroutine out in between: with two keys, both eligible, and both goroutines
  reading the empty slice before either stores, the orchestrator waits for both and
  returns one item; the item of key 1 is lost.
\<close>

theorem concurrent_append_loses_item:
  "tasks (exec (all_github [1, 2]) both_read_first (init_state ''[...]'' [1, 2]))
     = [TAppend [] (listed (item_url 1)), TAppend [] (listed (item_url 2))]
   \<and> getStories (all_github [1, 2]) lost_update list_response
       = Some (Inr [listed (item_url 2)])"
  by (simp add: getStories_def all_github_def lost_update both_read_first init_state_def
      list_response_def enrich_def eligible_def listed_def decoded_def wg_Done_def)

section \<open>Running a schedule in two parts\<close>

lemma exec_append: "exec e (a @ b) st = exec e b (exec e a st)"
  by (induction a arbitrary: st) auto

lemma wg_Done_fields [simp]:
  "tasks (wg_Done st) = tasks st"
  "stories (wg_Done st) = stories st"
  "body (wg_Done st) = body st"
  "semaphore (wg_Done st) = semaphore st"
  "wg (wg_Done st) = wg st - 1"
  "mpc (wg_Done st) = (if wg st = 1 \<and> mpc st = MBlocked then MWoken else mpc st)"
  by (simp_all add: wg_Done_def)

section \<open>The admission gate\<close>

lemma filter_update_count:
  "i < length xs \<Longrightarrow>
   length (filter P (xs[i := y])) + of_bool (P (xs ! i))
     = length (filter P xs) + (of_bool (P y) :: nat)"
proof (induction xs arbitrary: i)
  case Nil
  then show ?case by simp
next
  case (Cons x xs)
  show ?case
  proof (cases i)
    case 0
    then show ?thesis by simp
  next
    case (Suc j)
    with Cons.prems have "j < length xs" by simp
    from Cons.IH [OF this] Suc show ?thesis by simp
  qed
qed

lemma accounted_init: "accounted (init_state b ks)"
  by (simp add: accounted_def init_state_def)

lemma accounted_main: "accounted st \<Longrightarrow> main_step pc st = Some st' \<Longrightarrow> accounted st'"
  by (induction pc st rule: main_step.induct) (auto simp: accounted_def split: if_splits)

lemma task_step_tasks: "task_step e old st = Some (pc, st') \<Longrightarrow> tasks st' = tasks st"
  by (cases old) (auto split: if_splits option.splits)

lemma task_step_semaphore:
  "task_step e old st = Some (pc, st') \<Longrightarrow> semaphore st \<le> 10 \<Longrightarrow>
   semaphore st' + of_bool (holds_slot old) = semaphore st + of_bool (holds_slot pc)
   \<and> semaphore st' \<le> 10"
  by (cases old) (auto split: if_splits option.splits)

lemma task_step_wg:
  "task_step e old st = Some (pc, st') \<Longrightarrow>
   wg st' + of_bool (counted old) = wg st + of_bool (counted pc)"
  by (cases old) (auto split: if_splits option.splits)

lemma task_step_blocked:
  "task_step e old st = Some (pc, st') \<Longrightarrow> 0 \<le> wg st \<Longrightarrow>
   (mpc st = MBlocked \<longrightarrow> wg st \<noteq> 0) \<Longrightarrow> (mpc st' = MBlocked \<longrightarrow> wg st' \<noteq> 0)"
  by (cases old) (auto split: if_splits option.splits)

lemma accounted_task:
  assumes "accounted st" "i < length (tasks st)" "task_step e (tasks st ! i) st = Some (pc, st')"
  shows "accounted (st'\<lparr>tasks := (tasks st')[i := pc]\<rparr>)"
proof -
  let ?ts = "(tasks st)[i := pc]"
  note t = task_step_tasks [OF assms(3)]
  from assms(1) have sem: "semaphore st = length (filter holds_slot (tasks st))"
    and le: "semaphore st \<le> 10"
    and cnt: "wg st = int (length (filter counted (tasks st)))"
    and blk: "mpc st = MBlocked \<longrightarrow> wg st \<noteq> 0"
    unfolding accounted_def by blast+
  from task_step_semaphore [OF assms(3) le] filter_update_count [OF assms(2), of holds_slot pc] sem
  have 1: "semaphore st' = length (filter holds_slot ?ts)" "semaphore st' \<le> 10"
    by simp_all
  have "int (length (filter counted ?ts)) + of_bool (counted (tasks st ! i))
          = int (length (filter counted (tasks st))) + of_bool (counted pc)"
    using filter_update_count [OF assms(2), of counted pc]
    by (metis of_nat_add of_nat_of_bool)
  with task_step_wg [OF assms(3)] cnt
  have 2: "wg st' = int (length (filter counted ?ts))" by simp
  from cnt have "0 \<le> wg st" by simp
  from task_step_blocked [OF assms(3) this blk]
  have 3: "mpc st' = MBlocked \<longrightarrow> wg st' \<noteq> 0" .
  from 1 2 3 show ?thesis by (simp add: accounted_def t)
qed

lemma accounted_step: "accounted st \<Longrightarrow> step e t st = Some st' \<Longrightarrow> accounted st'"
  by (cases t) (auto simp: accounted_main dest: accounted_task split: if_splits option.splits)

lemma accounted_exec: "accounted st \<Longrightarrow> accounted (exec e sched st)"
  by (induction sched arbitrary: st) (auto dest: accounted_step split: option.splits)

lemma fetching_le: "length (filter fetching xs) \<le> length (filter holds_slot xs)"
proof (induction xs)
  case Nil
  show ?case by simp
next
  case (Cons x xs)
  then show ?case by (cases x) auto
qed

text \<open>
  C8. In every state that a run can reach, at most 10 goroutines are in their
  fetch-and-filter work. The goroutines between the send on \<open>semaphore\<close> and the
  receive that gives the slot back are exactly as many as the channel holds, so every
  goroutine that fetches has taken a slot and every goroutine that has finished, on
  whatever path, has given it back.
\<close>

theorem at_most_ten_in_flight:
  "length (filter fetching (tasks (exec e sched (init_state b ks)))) \<le> 10
   \<and> length (filter holds_slot (tasks (exec e sched (init_state b ks))))
       = semaphore (exec e sched (init_state b ks))
   \<and> semaphore (exec e sched (init_state b ks)) \<le> 10"
  using accounted_exec [OF accounted_init, of e sched b ks]
    fetching_le [of "tasks (exec e sched (init_state b ks))"]
  by (simp add: accounted_def)

section \<open>Every run that has not panicked can finish\<close>






lemma task_keeps_main:
  assumes "step e (Task i) st = Some st'"
  shows "mpc st' = mpc st \<or> (mpc st = MBlocked \<and> mpc st' = MWoken)"
  using assms by (cases "tasks st ! i") (auto split: if_splits option.splits)






section \<open>One goroutine run on its own\<close>

lemma nine: "replicate 9 t = [t, t, t, t, t, t, t, t, t]"
  by (simp add: numeral_eq_Suc)

lemma run_task:
  assumes "i < length (tasks st)" and "tasks st ! i = TStart k" and "semaphore st < 10"
    and "mpc st \<noteq> MBlocked"
  shows "tasks (exec e (replicate 9 (Task i)) st) = (tasks st)[i := TExit]
       \<and> stories (exec e (replicate 9 (Task i)) st)
           = (case item_result e k of None \<Rightarrow> stories st | Some s \<Rightarrow> stories st @ [s])
       \<and> mpc (exec e (replicate 9 (Task i)) st) = mpc st
       \<and> wg (exec e (replicate 9 (Task i)) st) = wg st
       \<and> semaphore (exec e (replicate 9 (Task i)) st) = semaphore st"
proof (cases "http_Get e (item_url k)")
  case None
  with assms show ?thesis by (simp add: nine item_result_def)
next
  case (Some r)
  note get = this
  show ?thesis
  proof (cases "resp_err r")
    case (Some err)
    with get assms show ?thesis by (simp add: nine item_result_def)
  next
    case None
    note read = this
    show ?thesis
    proof (cases "json_story e (resp_body r)")
      case None
      with get read assms show ?thesis by (simp add: nine item_result_def)
    next
      case (Some s)
      with get read assms show ?thesis
        by (cases "enrich e s") (simp_all add: nine item_result_def)
    qed
  qed
qed

section \<open>The sequential schedule\<close>

lemma task_keeps_done: "step e (Task i) st = Some st' \<Longrightarrow> mpc st = MDone ss \<Longrightarrow> mpc st' = MDone ss"
  using task_keeps_main [of e i st st'] by auto

lemma done_stays: "mpc st = MDone ss \<Longrightarrow> mpc (exec e sched st) = MDone ss"
proof (induction sched arbitrary: st)
  case Nil
  then show ?case by simp
next
  case (Cons t sched)
  show ?case
  proof (cases "step e t st")
    case None
    with Cons show ?thesis by simp
  next
    case (Some st')
    have "mpc st' = MDone ss"
    proof (cases t)
      case Main
      with Some Cons.prems show ?thesis by simp
    next
      case (Task i)
      with Some have "step e (Task i) st = Some st'" by blast
      from task_keeps_done [OF this Cons.prems] show ?thesis .
    qed
    with Some Cons.IH show ?thesis by simp
  qed
qed

lemma idle_task: "list_all (\<lambda>t. t = TExit) (tasks st) \<Longrightarrow> step e (Task i) st = None"
  by (auto simp: list_all_length)

lemma idle_return:
  "list_all (\<lambda>t. t = TExit) (tasks st) \<Longrightarrow> mpc st = MReturn \<Longrightarrow> Main \<in> set sched \<Longrightarrow>
   mpc (exec e sched st) = MDone (stories st)"
proof (induction sched)
  case Nil
  then show ?case by simp
next
  case (Cons t sched)
  show ?case
  proof (cases t)
    case Main
    with Cons.prems(2) show ?thesis by (simp add: done_stays)
  next
    case (Task i)
    from idle_task [OF Cons.prems(1)] have "step e (Task i) st = None" .
    with Task Cons show ?thesis by (simp del: step.simps)
  qed
qed

lemma sequential_run:
  assumes "list_all (\<lambda>t. t = TExit) (tasks st)" and "wg st = 0" and "semaphore st = 0"
    and "mpc st = MLoop ks"
  shows "mpc (exec e
           (concat (map (\<lambda>i. [Main, Main] @ replicate 9 (Task i))
              [length (tasks st)..<length (tasks st) + length ks]) @ [Main, Main, Main]) st)
         = MDone (sequential_result e ks (stories st))"
  using assms
proof (induction ks arbitrary: st)
  case Nil
  then show ?case by simp
next
  case (Cons k ks)
  let ?n = "length (tasks st)"
  let ?rest = "concat (map (\<lambda>i. [Main, Main] @ replicate 9 (Task i)) [Suc ?n..<Suc ?n + length ks])
                 @ [Main, Main, Main]"
  have idx: "[?n..<?n + length (k # ks)] = ?n # [Suc ?n..<Suc ?n + length ks]"
    using upt_conv_Cons [of ?n "?n + Suc (length ks)"] by simp
  show ?case
  proof (cases "length (stories st) \<ge> 30")
    case True
    let ?st = "st\<lparr>mpc := MReturn\<rparr>"
    have "mpc (exec e (replicate 9 (Task ?n) @ ?rest) ?st) = MDone (stories ?st)"
      using Cons.prems(1) by (intro idle_return) simp_all
    with True Cons.prems show ?thesis
      unfolding idx by simp
  next
    case False
    let ?s1 = "st\<lparr>mpc := MLoop ks, tasks := tasks st @ [TStart k]\<rparr>"
    let ?s2 = "exec e (replicate 9 (Task ?n)) ?s1"
    have one: "tasks ?s2 = tasks st @ [TExit]"
      "stories ?s2 = (case item_result e k of None \<Rightarrow> stories st | Some s \<Rightarrow> stories st @ [s])"
      "mpc ?s2 = MLoop ks" "wg ?s2 = 0" "semaphore ?s2 = 0"
      using run_task [of ?n ?s1 k e] Cons.prems(2,3) by (simp_all split: option.splits)
    have "mpc (exec e
            (concat (map (\<lambda>i. [Main, Main] @ replicate 9 (Task i))
               [length (tasks ?s2)..<length (tasks ?s2) + length ks]) @ [Main, Main, Main]) ?s2)
          = MDone (sequential_result e ks (stories ?s2))"
      using one Cons.prems(1) by (intro Cons.IH) simp_all
    then have "mpc (exec e ?rest ?s2) = MDone (sequential_result e (k # ks) (stories st))"
      using one False by simp
    with False Cons.prems(4) show ?thesis
      unfolding idx by (simp add: exec_append)
  qed
qed

lemma sequential_returns:
  assumes "resp_err res = None"
  shows "getStories e (sequential (length (snd (json_keys e (resp_body res))))) res
           = Some (Inr (sequential_result e (snd (json_keys e (resp_body res))) []))"
  using assms
    sequential_run [of "init_state (resp_body res) (snd (json_keys e (resp_body res)))"
      "snd (json_keys e (resp_body res))" e]
  by (simp add: getStories_def sequential_def init_state_def)

section \<open>Item failures\<close>



text \<open>
  Not every run returns. When the orchestrator sleeps in \<open>wg.Wait()\<close> and a goroutine
  that was not counted yet calls \<open>wg.Add(1)\<close> between the \<open>Done\<close> that wakes the
  orchestrator and its waking, \<open>Wait\<close> panics. This comes from the place of
  \<open>wg.Add(1)\<close> (line 100) and happens whether or not an item fetch fails; below, no
  fetch fails.
\<close>

lemma panic_stays: "mpc st = MPanic \<Longrightarrow> mpc (exec e sched st) = MPanic"
proof (induction sched arbitrary: st)
  case Nil
  then show ?case by simp
next
  case (Cons t sched)
  show ?case
  proof (cases "step e t st")
    case None
    with Cons show ?thesis by simp
  next
    case (Some st')
    have "mpc st' = MPanic"
    proof (cases t)
      case Main
      with Some Cons.prems show ?thesis by simp
    next
      case (Task i)
      with Some have "step e (Task i) st = Some st'" by blast
      from task_keeps_main [OF this] Cons.prems show ?thesis by auto
    qed
    with Some Cons.IH show ?thesis by simp
  qed
qed

lemma late_add:
  "late_add = [Main, Main, Main, Main, Task 0, Main, Main, Task 0, Task 0, Task 0, Task 0,
     Task 0, Task 0, Task 0, Task 0, Task 1, Main]"
  by (simp add: late_add_def numeral_eq_Suc)

lemma late_add_panics:
  "mpc (exec (all_github [1, 2]) late_add (init_state ''[...]'' [1, 2])) = MPanic
   \<and> getStories (all_github [1, 2]) (late_add @ sched) list_response = None"
proof -
  have p: "mpc (exec (all_github [1, 2]) late_add (init_state ''[...]'' [1, 2])) = MPanic"
    by (simp add: late_add all_github_def init_state_def enrich_def eligible_def decoded_def
        wg_Done_def)
  from panic_stays [OF p, where sched = sched] p show ?thesis
    by (simp add: getStories_def exec_append list_response_def all_github_def)
qed



section \<open>A link URL that does not parse\<close>

text \<open>
  C10, as stated: when the URL of an eligible story does not parse, the story is still
  appended, with its relative age set and its host name empty. The field
  \<open>DomainName\<close> has no \<open>json\<close> tag, so the decoder fills it from a member of that
  name in the item body, and this path does not assign it: for such a body the story is
  appended with the host name of the body, not with an empty one.
\<close>

theorem host_name_kept_from_body:
  "json_story carries_host (item_url 1) = Some with_host
   \<and> eligible (URL with_host) \<and> url_Hostname carries_host (URL with_host) = None
   \<and> getStories carries_host (sequential 1) list_response
       = Some (Inr [with_host\<lparr>HumanTime := ''now''\<rparr>])
   \<and> DomainName (with_host\<lparr>HumanTime := ''now''\<rparr>) = ''evil.example''
   \<and> DomainName (with_host\<lparr>HumanTime := ''now''\<rparr>) \<noteq> []"
proof -
  have e: "json_story carries_host (item_url 1) = Some with_host"
    "eligible (URL with_host)" "url_Hostname carries_host (URL with_host) = None"
    by (simp_all add: carries_host_def unparsable_def all_github_def with_host_def
        bad_escape_def decoded_def eligible_def)
  have k: "snd (json_keys carries_host (resp_body list_response)) = [1]"
    "resp_err list_response = None"
    by (simp_all add: carries_host_def unparsable_def all_github_def list_response_def)
  have "item_result carries_host 1 = Some (with_host\<lparr>HumanTime := ''now''\<rparr>)"
    by (simp add: item_result_def enrich_def carries_host_def unparsable_def all_github_def
        with_host_def bad_escape_def decoded_def eligible_def)
  then have "sequential_result carries_host [1] [] = [with_host\<lparr>HumanTime := ''now''\<rparr>]"
    by simp
  with sequential_returns [OF k(2), of carries_host] k(1) e show ?thesis
    by (simp add: with_host_def)
qed

text \<open>
  C10, amended. When the URL of an eligible story does not parse, the goroutine still
  appends the story, with its relative age set; the host name is not assigned, so it
  stays as the decoder left it, which is empty for a body without a member
  \<open>DomainName\<close>. A failure to derive the host name never excludes the story.
\<close>

theorem unparsable_url_still_appended:
  assumes "i < length (tasks st)" and "tasks st ! i = TFilter s"
    and "eligible (URL s)" and "url_Hostname e (URL s) = None"
  shows "stories (exec e [Task i, Task i] st)
           = stories st @ [s\<lparr>HumanTime := humanize_Time e (Time s)\<rparr>]
       \<and> DomainName (last (stories (exec e [Task i, Task i] st))) = DomainName s"
  using assms by (simp add: enrich_def)

theorem unparsable_url_still_appended_witness:
  "1 < length (tasks at_filter) \<and> tasks at_filter ! 1 = TFilter bad_escape
   \<and> eligible (URL bad_escape) \<and> url_Hostname unparsable (URL bad_escape) = None
   \<and> stories (exec unparsable [Task 1, Task 1] at_filter)
       = [listed ''first'', bad_escape\<lparr>HumanTime := ''now''\<rparr>]
   \<and> DomainName (last (stories (exec unparsable [Task 1, Task 1] at_filter))) = []"
proof -
  have h: "1 < length (tasks at_filter)" "tasks at_filter ! 1 = TFilter bad_escape"
    "eligible (URL bad_escape)" "url_Hostname unparsable (URL bad_escape) = None"
    by (simp_all add: at_filter_def bad_escape_def decoded_def eligible_def unparsable_def
        all_github_def)
  from unparsable_url_still_appended [OF h] h show ?thesis
    by (simp add: at_filter_def bad_escape_def decoded_def unparsable_def all_github_def)
qed

section \<open>Admitting every key before any goroutine completes\<close>

lemma admit_all:
  "length (stories st) < 30 \<Longrightarrow> mpc st = MLoop ks \<Longrightarrow>
   exec e (concat (replicate (length ks) [Main, Main])) st
     = st\<lparr>mpc := MLoop [], tasks := tasks st @ map TStart ks\<rparr>"
proof (induction ks arbitrary: st)
  case Nil
  then show ?case by (cases st) simp
next
  case (Cons k ks)
  let ?st = "st\<lparr>mpc := MLoop ks, tasks := tasks st @ [TStart k]\<rparr>"
  have "exec e (concat (replicate (length (k # ks)) [Main, Main])) st
          = exec e (concat (replicate (length ks) [Main, Main])) ?st"
    using Cons.prems by simp
  also have "\<dots> = ?st\<lparr>mpc := MLoop [], tasks := tasks ?st @ map TStart ks\<rparr>"
    using Cons.prems by (intro Cons.IH) simp_all
  finally show ?case by simp
qed

lemma run_tasks:
  assumes "tasks st = pre @ map TStart ks" and "semaphore st < 10" and "mpc st \<noteq> MBlocked"
    and "list_all (\<lambda>k. item_result e k \<noteq> None) ks"
  shows "tasks (exec e (concat (map (\<lambda>i. replicate 9 (Task i)) [length pre..<length pre + length ks])) st)
           = pre @ map (\<lambda>k. TExit) ks
       \<and> stories (exec e (concat (map (\<lambda>i. replicate 9 (Task i)) [length pre..<length pre + length ks])) st)
           = stories st @ map (the \<circ> item_result e) ks
       \<and> mpc (exec e (concat (map (\<lambda>i. replicate 9 (Task i)) [length pre..<length pre + length ks])) st) = mpc st
       \<and> wg (exec e (concat (map (\<lambda>i. replicate 9 (Task i)) [length pre..<length pre + length ks])) st) = wg st
       \<and> semaphore (exec e (concat (map (\<lambda>i. replicate 9 (Task i)) [length pre..<length pre + length ks])) st)
           = semaphore st"
  using assms
proof (induction ks arbitrary: st pre)
  case Nil
  then show ?case by simp
next
  case (Cons k ks)
  let ?i = "length pre"
  let ?st = "exec e (replicate 9 (Task ?i)) st"
  from Cons.prems(4) obtain s' where s': "item_result e k = Some s'" by auto
  have i: "?i < length (tasks st)" "tasks st ! ?i = TStart k"
    using Cons.prems(1) by (simp_all add: nth_append)
  from run_task [OF i Cons.prems(2,3), of e] s'
  have one: "tasks ?st = (tasks st)[?i := TExit]" "stories ?st = stories st @ [s']"
    "mpc ?st = mpc st" "wg ?st = wg st" "semaphore ?st = semaphore st"
    by simp_all
  have t: "tasks ?st = (pre @ [TExit]) @ map TStart ks"
    using one Cons.prems(1) by (simp add: list_update_append)
  have sem: "semaphore ?st < 10" "mpc ?st \<noteq> MBlocked" using one Cons.prems(2,3) by simp_all
  have rest: "list_all (\<lambda>k. item_result e k \<noteq> None) ks" using Cons.prems(4) by simp
  note ih = Cons.IH [OF t sem rest]
  have idx: "[?i..<?i + length (k # ks)] = ?i # [length (pre @ [TExit])..<length (pre @ [TExit]) + length ks]"
    using upt_conv_Cons [of "length pre" "length pre + Suc (length ks)"] by simp
  show ?case
    unfolding idx using ih one s' by (simp add: exec_append)
qed

lemma admit_all_first_returns_all:
  assumes "resp_err res = None" and "snd (json_keys e (resp_body res)) = ks"
    and "list_all (\<lambda>k. item_result e k \<noteq> None) ks"
  shows "getStories e (admit_all_first (length ks)) res = Some (Inr (map (the \<circ> item_result e) ks))"
proof -
  let ?s0 = "init_state (resp_body res) ks"
  let ?s1 = "?s0\<lparr>mpc := MLoop [], tasks := tasks ?s0 @ map TStart ks\<rparr>"
  let ?run = "concat (map (\<lambda>i. replicate 9 (Task i)) [0..<length ks])"
  let ?s2 = "exec e ?run ?s1"
  have a: "exec e (concat (replicate (length ks) [Main, Main])) ?s0 = ?s1"
    by (rule admit_all) (simp_all add: init_state_def)
  have "tasks ?s1 = [] @ map TStart ks" "semaphore ?s1 < 10" "mpc ?s1 \<noteq> MBlocked"
    by (simp_all add: init_state_def)
  from run_tasks [OF this assms(3)]
  have b: "stories ?s2 = map (the \<circ> item_result e) ks" "mpc ?s2 = MLoop []" "wg ?s2 = 0"
    by (simp_all add: init_state_def)
  have "mpc (exec e [Main, Main, Main] ?s2) = MDone (map (the \<circ> item_result e) ks)"
    using b by simp
  then show ?thesis
    using assms(1,2) a by (simp add: getStories_def admit_all_first_def exec_append)
qed

text \<open>
  C1. With at least 30 keys, all eligible, the aggregator is to return exactly 30 items
  and never more. The test of line 89 looks at the stories appended so far, not at the
  goroutines already started: with 31 keys, all eligible, and every goroutine started
  before the first one completes, \<open>getStories\<close> returns 31 items.
\<close>

theorem more_than_thirty_returned:
  "getStories (all_github keys31) (admit_all_first 31) list_response
     = Some (Inr (map (listed \<circ> item_url) keys31))
   \<and> length (map (listed \<circ> item_url) keys31) = 31"
proof -
  have r: "item_result (all_github keys31) k = Some (listed (item_url k))" for k
    by (simp add: item_result_def all_github_def enrich_def eligible_def listed_def decoded_def)
  have l: "length keys31 = 31" by (simp add: keys31_def)
  have "getStories (all_github keys31) (admit_all_first (length keys31)) list_response
          = Some (Inr (map (the \<circ> item_result (all_github keys31)) keys31))"
  proof (rule admit_all_first_returns_all)
    show "resp_err list_response = None" by (simp add: list_response_def)
    show "snd (json_keys (all_github keys31) (resp_body list_response)) = keys31"
      by (simp add: all_github_def)
    show "list_all (\<lambda>k. item_result (all_github keys31) k \<noteq> None) keys31"
      by (simp add: r list_all_iff)
  qed
  with l show ?thesis by (simp add: r comp_def)
qed

end
